theory Spec2Isabelle
  imports Main "HOL-Library.AList" "HOL-Library.Sublist" "HOL-Library.Char_ord"
    "HOL-Library.List_Lexorder"
begin

section \<open>Paths: \<open>path/filepath\<close> on a Unix host\<close>

text \<open>
  The driver builds every path with \<open>filepath.Join\<close>, whose result is lexically clean
  (\<open>filepath.Clean\<close>). A clean path string is held here in parsed form: whether it starts
  at \<open>/\<close>, and its components. \<open>Path False []\<close> is the string \<open>.\<close>, \<open>Path True []\<close>
  is \<open>/\<close>, \<open>Path False [''db'', ''users'']\<close> is \<open>db/users\<close>.
\<close>

datatype gopath = Path (rooted: bool) (comps: "string list")

fun split_slash :: "string \<Rightarrow> string list" where
  "split_slash [] = [[]]"
| "split_slash (c # s) =
     (if c = CHR ''/'' then [] # split_slash s
      else (case split_slash s of [] \<Rightarrow> [[c]] | x # xs \<Rightarrow> (c # x) # xs))"

fun join_slash :: "string list \<Rightarrow> string" where
  "join_slash [] = []"
| "join_slash [c] = c"
| "join_slash (c # cs) = c @ ''/'' @ join_slash cs"

definition path_string :: "gopath \<Rightarrow> string" where
  "path_string p =
     (if comps p = [] then (if rooted p then ''/'' else ''.'')
      else (if rooted p then ''/'' else []) @ join_slash (comps p))"

text \<open>
  One step of \<open>filepath.Clean\<close>: an empty component and \<open>.\<close> are dropped; \<open>..\<close> removes
  the last component written so far when there is one to remove, is dropped at the root of
  a rooted path and is kept at the front of a relative one; any other component is
  appended.
\<close>

definition clean_step :: "bool \<Rightarrow> string list \<Rightarrow> string \<Rightarrow> string list" where
  "clean_step r out c =
     (if c = [] \<or> c = ''.'' then out
      else if c = ''..'' then
        (if out \<noteq> [] \<and> last out \<noteq> ''..'' then butlast out
         else if r then out else out @ [''..''])
      else out @ [c])"

definition Clean :: "string \<Rightarrow> gopath" where
  "Clean s = (let r = (case s of [] \<Rightarrow> False | c # _ \<Rightarrow> c = CHR ''/'')
              in Path r (foldl (clean_step r) [] (split_slash s)))"

text \<open>
  \<open>filepath.Join(p, e)\<close> for a clean, hence non-empty, first element \<open>p\<close> is
  \<open>Clean(p + "/" + e)\<close>: cleaning goes on from the components of \<open>p\<close>.
\<close>

definition Join :: "gopath \<Rightarrow> string \<Rightarrow> gopath" where
  "Join p e = Path (rooted p) (foldl (clean_step (rooted p)) (comps p) (split_slash e))"

text \<open>
  \<open>filepath.Join(a, b)\<close> of two arbitrary strings: elements are joined from the first
  non-empty one on, and the result is the empty string when both are empty.
\<close>

definition Join_str :: "string \<Rightarrow> string \<Rightarrow> string" where
  "Join_str a b =
     (if a \<noteq> [] then path_string (Clean (a @ ''/'' @ b))
      else if b \<noteq> [] then path_string (Clean b)
      else [])"

text \<open>String concatenation \<open>p + s\<close> of a suffix without separator to a clean path.\<close>

definition path_suffix :: "gopath \<Rightarrow> string \<Rightarrow> gopath" where
  "path_suffix p s =
     (case comps p of
        [] \<Rightarrow> Path (rooted p) [(if rooted p then [] else ''.'') @ s]
      | _ \<Rightarrow> Path (rooted p) (butlast (comps p) @ [last (comps p) @ s]))"

definition endsWithDot :: "gopath \<Rightarrow> bool" where
  "endsWithDot p =
     ((\<not> rooted p \<and> comps p = []) \<or> (comps p \<noteq> [] \<and> last (comps p) = ''.''))"

text \<open>The last element of the path string is \<open>..\<close>.\<close>

definition endsWithDotDot :: "gopath \<Rightarrow> bool" where
  "endsWithDotDot p = (comps p \<noteq> [] \<and> last (comps p) = ''..'')"

text \<open>
  A path is clean when its components are proper names and cleaning them again changes
  nothing. \<open>Clean\<close> makes clean paths and \<open>Join\<close> keeps them clean; on a clean first
  element \<open>Join\<close> above is \<open>Clean\<close> of the concatenation (lemmas \<open>clean_path_Clean\<close>,
  \<open>clean_path_Join\<close> and \<open>Join_is_Clean\<close> below).
\<close>

definition clean_path :: "gopath \<Rightarrow> bool" where
  "clean_path p \<longleftrightarrow>
     list_all (\<lambda>c. c \<noteq> [] \<and> CHR ''/'' \<notin> set c) (comps p) \<and>
     foldl (clean_step (rooted p)) [] (comps p) = comps p"

section \<open>The file system\<close>

datatype node = File string | Dir "(string \<times> node) list"

datatype errno = ENOENT | ENOTDIR | EISDIR | EEXIST | EINVAL | EBUSY | ENOTEMPTY

datatype FileInfo = IsDir | IsRegular

datatype syscall =
    SysMkdirAll gopath
  | SysWriteFile gopath string
  | SysRename gopath gopath
  | SysRemoveAll gopath

text \<open>
  The world outside the driver: the directory tree from \<open>/\<close>, the working directory of the
  process (relative paths start there), and the mutating library calls issued so far, in
  order. There are no symbolic links, devices or permissions.
\<close>

record world =
  tree :: node
  cwd :: "string list"
  calls :: "syscall list"

fun walk :: "string list \<Rightarrow> string list \<Rightarrow> string list" where
  "walk base [] = base"
| "walk base (c # cs) =
     (if c = ''..'' then walk (butlast base) cs else walk (base @ [c]) cs)"

definition namei :: "world \<Rightarrow> gopath \<Rightarrow> string list" where
  "namei w p = walk (if rooted p then [] else cwd w) (comps p)"

fun lookup :: "node \<Rightarrow> string list \<Rightarrow> errno + node" where
  "lookup n [] = Inr n"
| "lookup (File s) (c # cs) = Inl ENOTDIR"
| "lookup (Dir es) (c # cs) =
     (case map_of es c of None \<Rightarrow> Inl ENOENT | Some n \<Rightarrow> lookup n cs)"

text \<open>What a path shows from outside: an error, a directory, or a file's content.\<close>

definition peek :: "node \<Rightarrow> string list \<Rightarrow> errno + string option" where
  "peek t q =
     (case lookup t q of
        Inl e \<Rightarrow> Inl e
      | Inr (File s) \<Rightarrow> Inr (Some s)
      | Inr (Dir es) \<Rightarrow> Inr None)"

fun unlink_tree :: "node \<Rightarrow> string list \<Rightarrow> node" where
  "unlink_tree n [] = n"
| "unlink_tree (File s) (c # cs) = File s"
| "unlink_tree (Dir es) (c # cs) =
     (if cs = [] then Dir (AList.delete c es)
      else (case map_of es c of
              None \<Rightarrow> Dir es
            | Some ch \<Rightarrow> Dir (AList.update c (unlink_tree ch cs) es)))"

fun link_tree :: "node \<Rightarrow> string list \<Rightarrow> node \<Rightarrow> node" where
  "link_tree t [] n = n"
| "link_tree (File s) (c # cs) n = File s"
| "link_tree (Dir es) (c # cs) n =
     (if cs = [] then Dir (AList.update c n es)
      else (case map_of es c of
              None \<Rightarrow> Dir es
            | Some ch \<Rightarrow> Dir (AList.update c (link_tree ch cs n) es)))"

fun mkdirall :: "node \<Rightarrow> string list \<Rightarrow> errno + node" where
  "mkdirall (File s) cs = Inl ENOTDIR"
| "mkdirall (Dir es) [] = Inr (Dir es)"
| "mkdirall (Dir es) (c # cs) =
     (case map_of es c of
        None \<Rightarrow>
          (case mkdirall (Dir []) cs of
             Inl e \<Rightarrow> Inl e
           | Inr n \<Rightarrow> Inr (Dir (es @ [(c, n)])))
      | Some ch \<Rightarrow>
          (case mkdirall ch cs of
             Inl e \<Rightarrow> Inl e
           | Inr n \<Rightarrow> Inr (Dir (AList.update c n es))))"

text \<open>
  \<open>os.Rename\<close>: the old name must exist; a new name that is a directory is refused
  (\<open>EEXIST\<close>); a file replaces a file; a directory does not move below itself; the
  directory of the new name must be there.
\<close>

definition rename_tree :: "node \<Rightarrow> string list \<Rightarrow> string list \<Rightarrow> errno + node" where
  "rename_tree t old new =
     (case lookup t old of
        Inl e \<Rightarrow> Inl e
      | Inr n \<Rightarrow>
          (case lookup t new of
             Inr (Dir es) \<Rightarrow> Inl EEXIST
           | Inr (File s) \<Rightarrow>
               if old = new then Inr t
               else (case n of
                       Dir es \<Rightarrow> Inl ENOTDIR
                     | File s' \<Rightarrow> Inr (link_tree (unlink_tree t old) new n))
           | Inl e \<Rightarrow>
               if prefix old new then
                 (case n of Dir es \<Rightarrow> Inl EINVAL | File s' \<Rightarrow> Inl ENOTDIR)
               else (case lookup t (butlast new) of
                       Inl e' \<Rightarrow> Inl e'
                     | Inr (File s') \<Rightarrow> Inl ENOTDIR
                     | Inr (Dir es) \<Rightarrow> Inr (link_tree (unlink_tree t old) new n))))"

subsection \<open>The calls of \<open>os\<close> and \<open>io/ioutil\<close> the driver makes\<close>

definition os_Stat :: "world \<Rightarrow> gopath \<Rightarrow> errno + FileInfo" where
  "os_Stat w p =
     (case lookup (tree w) (namei w p) of
        Inl e \<Rightarrow> Inl e
      | Inr (File s) \<Rightarrow> Inr IsRegular
      | Inr (Dir es) \<Rightarrow> Inr IsDir)"

definition os_ReadFile :: "world \<Rightarrow> gopath \<Rightarrow> errno + string" where
  "os_ReadFile w p =
     (case lookup (tree w) (namei w p) of
        Inl e \<Rightarrow> Inl e
      | Inr (File s) \<Rightarrow> Inr s
      | Inr (Dir es) \<Rightarrow> Inl EISDIR)"

text \<open>
  \<open>ioutil.ReadDir\<close> returns the entries of a directory sorted by file name; the driver
  uses their names only.
\<close>

definition os_ReadDir :: "world \<Rightarrow> gopath \<Rightarrow> errno + string list" where
  "os_ReadDir w p =
     (case lookup (tree w) (namei w p) of
        Inl e \<Rightarrow> Inl e
      | Inr (File s) \<Rightarrow> Inl ENOTDIR
      | Inr (Dir es) \<Rightarrow> Inr (sort (map fst es)))"

definition os_MkdirAll :: "world \<Rightarrow> gopath \<Rightarrow> world \<times> errno option" where
  "os_MkdirAll w p =
     (let w' = w\<lparr>calls := calls w @ [SysMkdirAll p]\<rparr>
      in case mkdirall (tree w) (namei w p) of
           Inl e \<Rightarrow> (w', Some e)
         | Inr t \<Rightarrow> (w'\<lparr>tree := t\<rparr>, None))"

text \<open>
  \<open>ioutil.WriteFile\<close> creates the file or truncates it; the directory it is in must be
  there.
\<close>

definition os_WriteFile :: "world \<Rightarrow> gopath \<Rightarrow> string \<Rightarrow> world \<times> errno option" where
  "os_WriteFile w p data =
     (let w' = w\<lparr>calls := calls w @ [SysWriteFile p data]\<rparr>; q = namei w p
      in case lookup (tree w) q of
           Inr (Dir es) \<Rightarrow> (w', Some EISDIR)
         | Inr (File s) \<Rightarrow> (w'\<lparr>tree := link_tree (tree w) q (File data)\<rparr>, None)
         | Inl e \<Rightarrow>
             (case lookup (tree w) (butlast q) of
                Inr (Dir es) \<Rightarrow> (w'\<lparr>tree := link_tree (tree w) q (File data)\<rparr>, None)
              | Inr (File s) \<Rightarrow> (w', Some ENOTDIR)
              | Inl e' \<Rightarrow> (w', Some e')))"

definition os_Rename :: "world \<Rightarrow> gopath \<Rightarrow> gopath \<Rightarrow> world \<times> errno option" where
  "os_Rename w old new =
     (let w' = w\<lparr>calls := calls w @ [SysRename old new]\<rparr>
      in case rename_tree (tree w) (namei w old) (namei w new) of
           Inl e \<Rightarrow> (w', Some e)
         | Inr t \<Rightarrow> (w'\<lparr>tree := t\<rparr>, None))"

text \<open>
  \<open>os.RemoveAll\<close> refuses a path that ends in \<open>.\<close> with \<open>EINVAL\<close> (as \<open>rmdir\<close> does)
  and returns no error for a path that does not exist. Otherwise it removes what the
  directory holds and then the file or directory itself. That last step fails for a
  path that ends in \<open>..\<close> (\<open>rmdir\<close> gives \<open>ENOTEMPTY\<close>) and for the root of the file
  system (\<open>EBUSY\<close>): the directory stays, emptied, and the call returns the error.
\<close>

definition emptied :: "node \<Rightarrow> node" where
  "emptied n = (case n of Dir es \<Rightarrow> Dir [] | File s \<Rightarrow> File s)"

definition os_RemoveAll :: "world \<Rightarrow> gopath \<Rightarrow> world \<times> errno option" where
  "os_RemoveAll w p =
     (let w' = w\<lparr>calls := calls w @ [SysRemoveAll p]\<rparr>; q = namei w p
      in if endsWithDot p then (w', Some EINVAL)
         else (case lookup (tree w) q of
                 Inl e \<Rightarrow> (w', if e = ENOENT then None else Some e)
               | Inr n \<Rightarrow>
                   if endsWithDotDot p then
                     (w'\<lparr>tree := link_tree (tree w) q (emptied n)\<rparr>, Some ENOTEMPTY)
                   else if q = [] then (w'\<lparr>tree := emptied n\<rparr>, Some EBUSY)
                   else (w'\<lparr>tree := unlink_tree (tree w) q\<rparr>, None)))"

section \<open>The driver\<close>

text \<open>
  The package \<open>encoding/json\<close> is outside the repository: the driver takes it as given.
  \<open>MarshalIndent v prefix indent\<close> is the encoded value, or nothing when the value cannot
  be encoded; \<open>Unmarshal b out\<close> is the target \<open>out\<close> after decoding \<open>b\<close> into it, or
  nothing when decoding fails.
\<close>

record 'v encoding_json =
  MarshalIndent :: "'v \<Rightarrow> string \<Rightarrow> string \<Rightarrow> string option"
  Unmarshal :: "string \<Rightarrow> 'v \<Rightarrow> 'v option"

text \<open>
  The errors the driver returns. It formats four messages itself:
  \<open>missing collection - no place to save record\<close> (\<open>Write\<close>, \<open>Read\<close>, \<open>ReadAll\<close>),
  \<open>missing resource - unable to save record!\<close> (\<open>Write\<close>),
  \<open>missing resource - unable to read record!\<close> (\<open>Read\<close>) and
  \<open>unable to find file or directory name\<close> with the path it looked for (\<open>Delete\<close>).
  The others are an error of the operating system passed on and the two errors of the
  JSON package.
\<close>

datatype error =
    MissingCollection
  | MissingResourceSave
  | MissingResourceRead
  | UnableToFind string
  | OsError errno
  | MarshalError
  | UnmarshalError

text \<open>
  Of the fields of \<open>Driver\<close> only \<open>dir\<close> is kept. The mutex of a collection is taken and
  released within one call and the logger is not used by the operations: in a sequential
  run neither changes a result.
\<close>

record Driver =
  dir :: gopath

definition New :: "world \<Rightarrow> string \<Rightarrow> Driver \<times> world \<times> error option" where
  "New w d =
     (let driver = \<lparr>dir = Clean d\<rparr>
      in case os_Stat w (Clean d) of
           Inr fi \<Rightarrow> (driver, w, None)
         | Inl e \<Rightarrow>
             (case os_MkdirAll w (Clean d) of (w', err) \<Rightarrow> (driver, w', map_option OsError err)))"

text \<open>
  \<open>stat\<close> tries the path with \<open>.json\<close> when \<open>os.IsNotExist\<close> holds of the first error,
  which is the case for \<open>ENOENT\<close> only.
\<close>

definition stat :: "world \<Rightarrow> gopath \<Rightarrow> errno + FileInfo" where
  "stat w path =
     (case os_Stat w path of
        Inl e \<Rightarrow> if e = ENOENT then os_Stat w (path_suffix path ''.json'') else Inl e
      | Inr fi \<Rightarrow> Inr fi)"

text \<open>
  The three paths \<open>Write\<close> computes: \<open>dir\<close>, \<open>fnlPath\<close> and \<open>tmpPath\<close>. It then makes the
  directory, encodes the value, writes the temporary file and renames it.
\<close>

definition Write_dir :: "Driver \<Rightarrow> string \<Rightarrow> gopath" where
  "Write_dir d collections = Join (dir d) collections"

definition fnlPath :: "Driver \<Rightarrow> string \<Rightarrow> string \<Rightarrow> gopath" where
  "fnlPath d collections resource = Join (Write_dir d collections) (resource @ ''.json'')"

definition tmpPath :: "Driver \<Rightarrow> string \<Rightarrow> string \<Rightarrow> gopath" where
  "tmpPath d collections resource = path_suffix (fnlPath d collections resource) ''.tmp''"

definition Write ::
  "'v encoding_json \<Rightarrow> Driver \<Rightarrow> world \<Rightarrow> string \<Rightarrow> string \<Rightarrow> 'v \<Rightarrow> world \<times> error option" where
  "Write json d w collections resource v =
     (if collections = [] then (w, Some MissingCollection)
      else if resource = [] then (w, Some MissingResourceSave)
      else (case os_MkdirAll w (Write_dir d collections) of
              (w1, Some e) \<Rightarrow> (w1, Some (OsError e))
            | (w1, None) \<Rightarrow>
                (case MarshalIndent json v [] [CHR 0x09] of
                   None \<Rightarrow> (w1, Some MarshalError)
                 | Some b \<Rightarrow>
                     (case os_WriteFile w1 (tmpPath d collections resource) (b @ [CHR 0x0A]) of
                        (w2, Some e) \<Rightarrow> (w2, Some (OsError e))
                      | (w2, None) \<Rightarrow>
                          (case os_Rename w2 (tmpPath d collections resource)
                                  (fnlPath d collections resource) of
                             (w3, err) \<Rightarrow> (w3, map_option OsError err))))))"

text \<open>
  \<open>Read\<close> joins the root and the collection into \<open>record\<close> (here \<open>rec\<close>), checks it
  with \<open>stat\<close> and reads \<open>record + ".json"\<close>; the resource name is only compared with the
  empty string.
\<close>

definition Read ::
  "'v encoding_json \<Rightarrow> Driver \<Rightarrow> world \<Rightarrow> string \<Rightarrow> string \<Rightarrow> 'v \<Rightarrow> error + 'v" where
  "Read json d w collections resource v =
     (if collections = [] then Inl MissingCollection
      else if resource = [] then Inl MissingResourceRead
      else (let rec = Join (dir d) collections
            in case stat w rec of
                 Inl e \<Rightarrow> Inl (OsError e)
               | Inr fi \<Rightarrow>
                   (case os_ReadFile w (path_suffix rec ''.json'') of
                      Inl e \<Rightarrow> Inl (OsError e)
                    | Inr b \<Rightarrow>
                        (case Unmarshal json b v of
                           None \<Rightarrow> Inl UnmarshalError
                         | Some v' \<Rightarrow> Inr v'))))"

text \<open>The loop of \<open>ReadAll\<close> over the listed names, \<open>records\<close> being what is read so far.\<close>

fun ReadAll_loop :: "world \<Rightarrow> gopath \<Rightarrow> string list \<Rightarrow> string list \<Rightarrow> error + string list" where
  "ReadAll_loop w d [] records = Inr records"
| "ReadAll_loop w d (name # files) records =
     (case os_ReadFile w (Join d name) of
        Inl e \<Rightarrow> Inl (OsError e)
      | Inr b \<Rightarrow> ReadAll_loop w d files (records @ [b]))"

definition ReadAll :: "Driver \<Rightarrow> world \<Rightarrow> string \<Rightarrow> error + string list" where
  "ReadAll d w collections =
     (if collections = [] then Inl MissingCollection
      else (case stat w (Join (dir d) collections) of
              Inl e \<Rightarrow> Inl (OsError e)
            | Inr fi \<Rightarrow>
                (let files = (case os_ReadDir w (Join (dir d) collections) of
                                Inl e \<Rightarrow> []
                              | Inr names \<Rightarrow> names)
                 in ReadAll_loop w (Join (dir d) collections) files [])))"

text \<open>The two paths \<open>Delete\<close> computes: \<open>path\<close> and \<open>dir\<close>.\<close>

definition Delete_path :: "string \<Rightarrow> string \<Rightarrow> string" where
  "Delete_path collections resource = Join_str collections resource"

definition Delete_dir :: "Driver \<Rightarrow> string \<Rightarrow> string \<Rightarrow> gopath" where
  "Delete_dir d collections resource = Join (dir d) (Delete_path collections resource)"

text \<open>
  A path that exists is a directory or a regular file here, so the \<open>switch\<close> of
  \<open>Delete\<close> always takes one of its three cases.
\<close>

definition Delete :: "Driver \<Rightarrow> world \<Rightarrow> string \<Rightarrow> string \<Rightarrow> world \<times> error option" where
  "Delete d w collections resource =
     (case stat w (Delete_dir d collections resource) of
        Inl e \<Rightarrow> (w, Some (UnableToFind (Delete_path collections resource)))
      | Inr IsDir \<Rightarrow>
          (case os_RemoveAll w (Delete_dir d collections resource) of
             (w', err) \<Rightarrow> (w', map_option OsError err))
      | Inr IsRegular \<Rightarrow>
          (case os_RemoveAll w (path_suffix (Delete_dir d collections resource) ''.json'') of
             (w', err) \<Rightarrow> (w', map_option OsError err)))"

text \<open>The error kinds of the specification, as classes of the driver's errors.\<close>

fun is_ValidationError :: "error \<Rightarrow> bool" where
  "is_ValidationError MissingCollection = True"
| "is_ValidationError MissingResourceSave = True"
| "is_ValidationError MissingResourceRead = True"
| "is_ValidationError e = False"

fun is_NotFoundError :: "error \<Rightarrow> bool" where
  "is_NotFoundError (UnableToFind p) = True"
| "is_NotFoundError (OsError e) = (e = ENOENT)"
| "is_NotFoundError e = False"

section \<open>Names and sample data\<close>

text \<open>
  A name that is one path component, as a directory entry has it: not empty, without
  separator, and neither \<open>.\<close> nor \<open>..\<close>.
\<close>

definition simple_name :: "string \<Rightarrow> bool" where
  "simple_name s \<longleftrightarrow> s \<noteq> [] \<and> CHR ''/'' \<notin> set s \<and> s \<noteq> ''.'' \<and> s \<noteq> ''..''"

text \<open>
  Sample values for the closed examples below: a boolean, which JSON encodes as \<open>true\<close> or
  \<open>false\<close>, and a channel, which it refuses to encode.
\<close>

datatype sample = Flag bool | Chan

definition sample_json :: "sample encoding_json" where
  "sample_json =
     \<lparr>MarshalIndent = (\<lambda>v pre ind.
          case v of Flag b \<Rightarrow> Some (if b then ''true'' else ''false'') | Chan \<Rightarrow> None),
      Unmarshal = (\<lambda>b out.
          if b = ''true'' @ [CHR 0x0A] then Some (Flag True)
          else if b = ''false'' @ [CHR 0x0A] then Some (Flag False)
          else None)\<rparr>"

text \<open>The drivers \<open>New\<close> builds for the directories \<open>db\<close> and \<open>./\<close>.\<close>

definition db :: Driver where
  "db = \<lparr>dir = Clean ''db''\<rparr>"

definition here :: Driver where
  "here = \<lparr>dir = Clean ''./''\<rparr>"

text \<open>The process runs in \<open>/home\<close>; \<open>/home/db\<close> is an empty store.\<close>

definition home :: world where
  "home = \<lparr>tree = Dir [(''home'', Dir [(''db'', Dir [])])], cwd = [''home''], calls = []\<rparr>"

text \<open>The store with the one resource \<open>db/users/john.json\<close>.\<close>

definition store_john :: world where
  "store_john =
     \<lparr>tree = Dir [(''home'', Dir [(''db'', Dir [(''users'',
               Dir [(''john.json'', File (''true'' @ [CHR 0x0A]))])])])],
      cwd = [''home''], calls = []\<rparr>"

text \<open>
  A store with the collection \<open>users\<close> holding two resources, and the files
  \<open>db/users.json\<close>, \<open>db/orders.json\<close> and \<open>db/items.json\<close> beside it; there is no
  directory \<open>db/orders\<close> or \<open>db/items\<close>.
\<close>

definition store_flat :: world where
  "store_flat =
     \<lparr>tree = Dir [(''home'', Dir [(''db'', Dir [
               (''users'', Dir [(''john.json'', File (''true'' @ [CHR 0x0A])),
                                (''amy.json'', File (''false'' @ [CHR 0x0A]))]),
               (''users.json'', File (''false'' @ [CHR 0x0A])),
               (''orders.json'', File (''true'' @ [CHR 0x0A])),
               (''items.json'', File (''true'' @ [CHR 0x0A]))])])],
      cwd = [''home''], calls = []\<rparr>"

text \<open>
  A store where the collection \<open>users\<close> holds the resource \<open>john.json\<close> and a directory
  \<open>john\<close> with a file in it, as \<open>Write\<close> to the collection \<open>users/john\<close> makes one.
\<close>

definition store_both :: world where
  "store_both =
     \<lparr>tree = Dir [(''home'', Dir [(''db'', Dir [(''users'',
               Dir [(''john.json'', File (''true'' @ [CHR 0x0A])),
                    (''john'', Dir [(''x.json'', File (''false'' @ [CHR 0x0A]))])])])])],
      cwd = [''home''], calls = []\<rparr>"

text \<open>The store of the driver \<open>here\<close>: the working directory itself, with one resource.\<close>

definition store_here :: world where
  "store_here =
     \<lparr>tree = Dir [(''home'', Dir [(''users'',
               Dir [(''john.json'', File (''true'' @ [CHR 0x0A]))])])],
      cwd = [''home''], calls = []\<rparr>"

text \<open>
  The driver \<open>New\<close> builds for the directory \<open>..\<close>, and a world where the process runs
  in \<open>/home/work\<close>: the store of that driver is \<open>/home\<close>.
\<close>

definition above :: Driver where
  "above = \<lparr>dir = Clean ''..''\<rparr>"

definition store_above :: world where
  "store_above =
     \<lparr>tree = Dir [(''home'', Dir [(''work'', Dir []),
               (''users'', Dir [(''john.json'', File (''true'' @ [CHR 0x0A]))])])],
      cwd = [''home'', ''work''], calls = []\<rparr>"

section \<open>Properties of paths and of the file system\<close>

subsection \<open>Paths\<close>


lemma split_slash_plain: "CHR ''/'' \<notin> set s \<Longrightarrow> split_slash s = [s]"
  by (induction s) auto

lemma split_slash_sep:
  "CHR ''/'' \<notin> set a \<Longrightarrow> split_slash (a @ CHR ''/'' # b) = a # split_slash b"
  by (induction a) auto


lemma walk_append: "walk b (xs @ ys) = walk (walk b xs) ys"
  by (induction xs arbitrary: b) auto

lemma walk_snoc: "c \<noteq> ''..'' \<Longrightarrow> walk b (cs @ [c]) = walk b cs @ [c]"
  by (simp add: walk_append)

lemma Join_simple: "simple_name s \<Longrightarrow> Join p s = Path (rooted p) (comps p @ [s])"
  by (simp add: Join_def simple_name_def split_slash_plain clean_step_def)

lemma simple_name_suffix: "simple_name s \<Longrightarrow> simple_name (s @ ''.json'')"
  by (auto simp: simple_name_def)

lemma namei_snoc:
  "c \<noteq> ''..'' \<Longrightarrow> namei w (Path r (cs @ [c])) = namei w (Path r cs) @ [c]"
  by (simp add: namei_def walk_snoc)

lemma path_suffix_snoc: "path_suffix (Path r (cs @ [c])) s = Path r (cs @ [c @ s])"
  by (cases cs) (simp_all add: path_suffix_def)

subsection \<open>\<open>Clean\<close> and \<open>Join\<close>\<close>

lemma split_slash_join:
  "cs \<noteq> [] \<Longrightarrow> list_all (\<lambda>c. CHR ''/'' \<notin> set c) cs \<Longrightarrow>
   split_slash (join_slash cs @ CHR ''/'' # e) = cs @ split_slash e"
proof (induction cs rule: join_slash.induct)
  case 1
  then show ?case by simp
next
  case (2 c)
  then show ?case by (simp add: split_slash_sep)
next
  case (3 c v va)
  then show ?case by (simp add: split_slash_sep)
qed

lemma join_slash_hd:
  "cs \<noteq> [] \<Longrightarrow> list_all (\<lambda>c. c \<noteq> [] \<and> CHR ''/'' \<notin> set c) cs \<Longrightarrow>
   \<exists>x s. join_slash cs = x # s \<and> x \<noteq> CHR ''/''"
proof (induction cs rule: join_slash.induct)
  case 1
  then show ?case by simp
next
  case (2 c)
  then show ?case by (cases c) auto
next
  case (3 c v va)
  then show ?case by (cases c) auto
qed

lemma Join_is_Clean:
  assumes "clean_path p"
  shows "Join p e = Clean (path_string p @ ''/'' @ e)"
proof (cases p)
  case (Path r cs)
  from assms Path have sl: "list_all (\<lambda>c. c \<noteq> [] \<and> CHR ''/'' \<notin> set c) cs"
    and fx: "foldl (clean_step r) [] cs = cs"
    by (simp_all add: clean_path_def)
  then have sl': "list_all (\<lambda>c. CHR ''/'' \<notin> set c) cs"
    by (simp add: list_all_iff)
  show ?thesis
  proof (cases "cs = []")
    case True
    then show ?thesis using Path
      by (cases r) (simp_all add: Join_def Clean_def path_string_def clean_step_def)
  next
    case False
    from join_slash_hd[OF False sl] obtain x s where
      js: "join_slash cs = x # s" "x \<noteq> CHR ''/''" by blast
    have sp: "split_slash (join_slash cs @ CHR ''/'' # e) = cs @ split_slash e"
      using split_slash_join[OF False sl'] .
    show ?thesis
    proof (cases r)
      case True
      have "split_slash (CHR ''/'' # join_slash cs @ CHR ''/'' # e) = [] # cs @ split_slash e"
        using sp by simp
      then show ?thesis using Path False True fx
        by (simp add: Join_def Clean_def path_string_def clean_step_def)
    next
      case F: False
      have "Clean (join_slash cs @ CHR ''/'' # e) =
              Path False (foldl (clean_step False) [] (cs @ split_slash e))"
        unfolding Clean_def sp[symmetric] using js by simp
      then show ?thesis using Path False F fx
        by (simp add: Join_def path_string_def)
    qed
  qed
qed

lemma clean_step_cases:
  "clean_step r out c = out \<or> clean_step r out c = butlast out \<or>
   (c = ''..'' \<and> (out = [] \<or> last out = ''..'') \<and> \<not> r \<and> clean_step r out c = out @ [''..'']) \<or>
   (c \<noteq> [] \<and> c \<noteq> ''.'' \<and> c \<noteq> ''..'' \<and> clean_step r out c = out @ [c])"
  by (simp add: clean_step_def)

lemma clean_step_length: "length (clean_step r out c) \<le> Suc (length out)"
  using clean_step_cases[of r out c] by auto

lemma foldl_clean_step_length: "length (foldl (clean_step r) out cs) \<le> length out + length cs"
proof (induction cs arbitrary: out)
  case Nil
  then show ?case by simp
next
  case (Cons c cs)
  have "length (foldl (clean_step r) (clean_step r out c) cs) \<le> length (clean_step r out c) + length cs"
    by (rule Cons.IH)
  then show ?case using clean_step_length[of r out c] by simp
qed

lemma clean_fix_butlast:
  assumes "foldl (clean_step r) [] out = out"
  shows "foldl (clean_step r) [] (butlast out) = butlast out"
proof (cases out rule: rev_cases)
  case Nil
  then show ?thesis by simp
next
  case (snoc xs x)
  define y where "y = foldl (clean_step r) [] xs"
  have len: "length y \<le> length xs"
    unfolding y_def using foldl_clean_step_length[of r "[]" xs] by simp
  from assms snoc have st: "clean_step r y x = xs @ [x]" by (simp add: y_def)
  then have ln: "length (clean_step r y x) = Suc (length xs)" by simp
  have "y = xs"
  proof -
    consider "clean_step r y x = y" | "clean_step r y x = butlast y"
      | "clean_step r y x = y @ [''..'']" | "clean_step r y x = y @ [x]"
      using clean_step_cases[of r y x] by blast
    then show ?thesis
    proof cases
      case 1
      with ln len show ?thesis by simp
    next
      case 2
      with ln len show ?thesis by simp
    next
      case 3
      with st have "y @ [''..''] = xs @ [x]" by simp
      then show ?thesis by simp
    next
      case 4
      with st have "y @ [x] = xs @ [x]" by simp
      then show ?thesis by simp
    qed
  qed
  then show ?thesis using snoc by (simp add: y_def)
qed

lemma clean_step_fix:
  assumes "foldl (clean_step r) [] out = out"
  shows "foldl (clean_step r) [] (clean_step r out c) = clean_step r out c"
proof -
  consider (skip) "clean_step r out c = out"
    | (pop) "clean_step r out c = butlast out"
    | (up) "c = ''..''" "out = [] \<or> last out = ''..''" "\<not> r" "clean_step r out c = out @ [''..'']"
    | (push) "c \<noteq> []" "c \<noteq> ''.''" "c \<noteq> ''..''" "clean_step r out c = out @ [c]"
    using clean_step_cases[of r out c] by blast
  then show ?thesis
  proof cases
    case skip
    then show ?thesis using assms by simp
  next
    case pop
    then show ?thesis using clean_fix_butlast[OF assms] by simp
  next
    case up
    then show ?thesis using assms by (auto simp: clean_step_def)
  next
    case push
    then show ?thesis using assms by (simp add: clean_step_def)
  qed
qed

lemma foldl_clean_step_fix:
  "foldl (clean_step r) [] out = out \<Longrightarrow>
   foldl (clean_step r) [] (foldl (clean_step r) out cs) = foldl (clean_step r) out cs"
proof (induction cs arbitrary: out)
  case Nil
  then show ?case by simp
next
  case (Cons c cs)
  from clean_step_fix[OF Cons.prems] show ?case by (simp add: Cons.IH)
qed

lemma split_slash_plain_comps: "list_all (\<lambda>c. CHR ''/'' \<notin> set c) (split_slash s)"
proof (induction s)
  case Nil
  then show ?case by simp
next
  case (Cons c s)
  then show ?case by (cases "split_slash s") auto
qed

lemma clean_step_comps:
  "list_all (\<lambda>c. c \<noteq> [] \<and> CHR ''/'' \<notin> set c) out \<Longrightarrow> CHR ''/'' \<notin> set c \<Longrightarrow>
   list_all (\<lambda>c. c \<noteq> [] \<and> CHR ''/'' \<notin> set c) (clean_step r out c)"
  by (auto simp: clean_step_def list_all_iff dest: in_set_butlastD)

lemma foldl_clean_step_comps:
  "list_all (\<lambda>c. c \<noteq> [] \<and> CHR ''/'' \<notin> set c) out \<Longrightarrow> list_all (\<lambda>c. CHR ''/'' \<notin> set c) cs \<Longrightarrow>
   list_all (\<lambda>c. c \<noteq> [] \<and> CHR ''/'' \<notin> set c) (foldl (clean_step r) out cs)"
proof (induction cs arbitrary: out)
  case Nil
  then show ?case by simp
next
  case (Cons c cs)
  then show ?case using clean_step_comps[of out c r] by simp
qed

lemma clean_path_Clean: "clean_path (Clean s)"
proof -
  define r where "r = (case s of [] \<Rightarrow> False | c # _ \<Rightarrow> c = CHR ''/'')"
  have c: "Clean s = Path r (foldl (clean_step r) [] (split_slash s))"
    by (simp add: Clean_def r_def Let_def)
  have "foldl (clean_step r) [] (foldl (clean_step r) [] (split_slash s))
          = foldl (clean_step r) [] (split_slash s)"
    by (rule foldl_clean_step_fix) simp
  moreover have "list_all (\<lambda>c. c \<noteq> [] \<and> CHR ''/'' \<notin> set c)
                   (foldl (clean_step r) [] (split_slash s))"
    by (rule foldl_clean_step_comps) (simp_all add: split_slash_plain_comps)
  ultimately show ?thesis unfolding c clean_path_def by simp
qed

lemma clean_path_Join:
  assumes "clean_path p"
  shows "clean_path (Join p e)"
proof -
  from assms have a: "list_all (\<lambda>c. c \<noteq> [] \<and> CHR ''/'' \<notin> set c) (comps p)"
    and b: "foldl (clean_step (rooted p)) [] (comps p) = comps p"
    by (simp_all add: clean_path_def)
  have "foldl (clean_step (rooted p)) [] (foldl (clean_step (rooted p)) (comps p) (split_slash e))
          = foldl (clean_step (rooted p)) (comps p) (split_slash e)"
    using b by (rule foldl_clean_step_fix)
  moreover have "list_all (\<lambda>c. c \<noteq> [] \<and> CHR ''/'' \<notin> set c)
                   (foldl (clean_step (rooted p)) (comps p) (split_slash e))"
    using a split_slash_plain_comps by (rule foldl_clean_step_comps)
  ultimately show ?thesis unfolding clean_path_def Join_def by simp
qed

lemma New_db: "New home ''db'' = (db, home, None)"
  by code_simp

lemma New_here: "New store_here ''./'' = (here, store_here, None)"
  by code_simp

subsection \<open>Trees\<close>

lemma peek_Nil: "peek t [] = (case t of File s \<Rightarrow> Inr (Some s) | Dir es \<Rightarrow> Inr None)"
  by (simp add: peek_def)

lemma peek_File_Cons: "peek (File s) (c # cs) = Inl ENOTDIR"
  by (simp add: peek_def)

lemma peek_Dir_Cons:
  "peek (Dir es) (c # cs) = (case map_of es c of None \<Rightarrow> Inl ENOENT | Some n \<Rightarrow> peek n cs)"
  by (simp add: peek_def split: option.splits)

lemmas peek_simps = peek_Nil peek_File_Cons peek_Dir_Cons

lemma lookup_append:
  "lookup t (p @ q) = (case lookup t p of Inl e \<Rightarrow> Inl e | Inr n \<Rightarrow> lookup n q)"
proof (induction p arbitrary: t)
  case Nil
  then show ?case by simp
next
  case (Cons c p)
  then show ?case by (cases t) (auto split: option.splits)
qed

lemma unlink_tree_frame:
  "\<not> prefix p q \<Longrightarrow> peek (unlink_tree t p) q = peek t q"
proof (induction p arbitrary: t q)
  case Nil
  then show ?case by simp
next
  case (Cons c cs)
  show ?case
  proof (cases t)
    case (File s)
    then show ?thesis by simp
  next
    case (Dir es)
    show ?thesis
    proof (cases q)
      case Nil
      then show ?thesis using Dir by (simp add: peek_simps split: option.splits)
    next
      case (Cons c' qs)
      show ?thesis
      proof (cases "c' = c")
        case True
        with Cons.prems Cons have np: "\<not> prefix cs qs" and ne: "cs \<noteq> []" by auto
        show ?thesis using Dir Cons True ne Cons.IH[OF np]
          by (simp add: peek_simps AList.update_conv' split: option.splits)
      next
        case False
        then show ?thesis using Dir Cons
          by (simp add: peek_simps AList.update_conv' AList.delete_conv' split: option.splits)
      qed
    qed
  qed
qed

lemma unlink_tree_gone:
  "p \<noteq> [] \<Longrightarrow> lookup t p = Inr n \<Longrightarrow> prefix p q \<Longrightarrow> peek (unlink_tree t p) q = Inl ENOENT"
proof (induction p arbitrary: t q)
  case Nil
  then show ?case by simp
next
  case (Cons c cs)
  from Cons.prems(3) obtain qs where q: "q = c # qs" and pq: "prefix cs qs"
    by (cases q) auto
  from Cons.prems(2) obtain es where t: "t = Dir es" by (cases t) auto
  show ?case
  proof (cases "cs = []")
    case True
    then show ?thesis using t q by (simp add: peek_simps AList.delete_conv')
  next
    case False
    from Cons.prems(2) t obtain ch where ch: "map_of es c = Some ch" "lookup ch cs = Inr n"
      by (auto split: option.splits)
    show ?thesis using t q False ch Cons.IH[OF False ch(2) pq]
      by (simp add: peek_simps AList.update_conv')
  qed
qed

lemma link_tree_lookup:
  "p \<noteq> [] \<Longrightarrow> lookup t (butlast p) = Inr (Dir ds) \<Longrightarrow> lookup (link_tree t p n) p = Inr n"
proof (induction p arbitrary: t)
  case Nil
  then show ?case by simp
next
  case (Cons c cs)
  show ?case
  proof (cases "cs = []")
    case True
    then show ?thesis using Cons.prems by (simp add: AList.update_conv')
  next
    case False
    from Cons.prems(2) False obtain es where t: "t = Dir es" by (cases t) auto
    from Cons.prems(2) False t obtain ch where
      ch: "map_of es c = Some ch" "lookup ch (butlast cs) = Inr (Dir ds)"
      by (auto split: option.splits)
    show ?thesis using t False ch Cons.IH[OF False ch(2)]
      by (simp add: AList.update_conv')
  qed
qed


lemma peek_is_dir: "peek t q = Inr None \<longleftrightarrow> (\<exists>ds. lookup t q = Inr (Dir ds))"
  by (auto simp: peek_def split: sum.splits node.splits)

lemma peek_is_file: "peek t q = Inr (Some s) \<longleftrightarrow> lookup t q = Inr (File s)"
  by (auto simp: peek_def split: sum.splits node.splits)

lemma lookup_parent:
  "lookup t p = Inr n \<Longrightarrow> p \<noteq> [] \<Longrightarrow> \<exists>ds. lookup t (butlast p) = Inr (Dir ds)"
proof (induction p arbitrary: t)
  case Nil
  then show ?case by simp
next
  case (Cons c cs)
  then obtain es where t: "t = Dir es" by (cases t) auto
  with Cons.prems obtain ch where ch: "map_of es c = Some ch" "lookup ch cs = Inr n"
    by (auto split: option.splits)
  show ?case
  proof (cases "cs = []")
    case True
    then show ?thesis using t by simp
  next
    case False
    from Cons.IH[OF ch(2) False] show ?thesis using t ch False by simp
  qed
qed

lemma lookup_below_file:
  "lookup t p = Inr (File d) \<Longrightarrow> prefix p q \<Longrightarrow> lookup t q = Inr x \<Longrightarrow> q = p"
proof -
  assume a: "lookup t p = Inr (File d)" "prefix p q" "lookup t q = Inr x"
  then obtain r where q: "q = p @ r" by (auto simp: prefix_def)
  with a have "lookup (File d) r = Inr x" by (simp add: lookup_append)
  then have "r = []" by (cases r) auto
  with q show ?thesis by simp
qed



lemma link_tree_at:
  "p = [] \<or> (\<exists>ds. lookup t (butlast p) = Inr (Dir ds)) \<Longrightarrow> lookup (link_tree t p n) p = Inr n"
  by (cases "p = []") (auto simp: link_tree_lookup)

lemma rename_tree_file:
  assumes "rename_tree t old new = Inr t'" and "lookup t old = Inr (File d)"
  shows "lookup t' new = Inr (File d)"
proof (cases "old = new")
  case True
  then show ?thesis using assms
    by (auto simp: rename_tree_def split: sum.splits node.splits if_splits)
next
  case False
  from assms False have t': "t' = link_tree (unlink_tree t old) new (File d)"
    by (auto simp: rename_tree_def split: sum.splits node.splits if_splits)
  from assms False have "new \<noteq> []"
    by (cases old; cases t) (auto simp: rename_tree_def split: sum.splits node.splits if_splits)
  moreover from assms False have par: "\<exists>ds. lookup t (butlast new) = Inr (Dir ds)"
    using lookup_parent[of t new] \<open>new \<noteq> []\<close>
    by (auto simp: rename_tree_def split: sum.splits node.splits if_splits)
  moreover have "\<not> prefix old (butlast new)"
  proof
    assume p: "prefix old (butlast new)"
    from par obtain ds where "lookup t (butlast new) = Inr (Dir ds)" by blast
    with lookup_below_file[OF assms(2) p] assms(2) show False by auto
  qed
  ultimately have "\<exists>ds. lookup (unlink_tree t old) (butlast new) = Inr (Dir ds)"
    using unlink_tree_frame[of old "butlast new" t] peek_is_dir by metis
  then show ?thesis unfolding t' by (simp add: link_tree_at)
qed


lemma namei_cong: "cwd w' = cwd w \<Longrightarrow> namei w' p = namei w p"
  by (simp add: namei_def)


lemma os_WriteFile_effect:
  assumes "os_WriteFile w p data = (w2, None)"
  shows "cwd w2 = cwd w" and "calls w2 = calls w @ [SysWriteFile p data]"
    and "lookup (tree w2) (namei w p) = Inr (File data)"
proof -
  show "cwd w2 = cwd w" and "calls w2 = calls w @ [SysWriteFile p data]"
    using assms by (auto simp: os_WriteFile_def Let_def split: sum.splits node.splits)
  from assms have t2: "tree w2 = link_tree (tree w) (namei w p) (File data)"
    by (auto simp: os_WriteFile_def Let_def split: sum.splits node.splits)
  have "namei w p = [] \<or> (\<exists>ds. lookup (tree w) (butlast (namei w p)) = Inr (Dir ds))"
    using assms lookup_parent[of "tree w" "namei w p"]
    by (auto simp: os_WriteFile_def Let_def split: sum.splits node.splits)
  then show "lookup (tree w2) (namei w p) = Inr (File data)"
    unfolding t2 by (rule link_tree_at)
qed

lemma os_Rename_effect:
  assumes "os_Rename w old new = (w3, None)" and "lookup (tree w) (namei w old) = Inr (File d)"
  shows "cwd w3 = cwd w" and "calls w3 = calls w @ [SysRename old new]"
    and "lookup (tree w3) (namei w new) = Inr (File d)"
proof -
  show "cwd w3 = cwd w" and "calls w3 = calls w @ [SysRename old new]"
    using assms by (auto simp: os_Rename_def Let_def split: sum.splits)
  from assms obtain t' where "rename_tree (tree w) (namei w old) (namei w new) = Inr t'"
    "tree w3 = t'"
    by (auto simp: os_Rename_def Let_def split: sum.splits)
  then show "lookup (tree w3) (namei w new) = Inr (File d)"
    using rename_tree_file assms(2) by simp
qed




lemma Write_steps:
  assumes "collections \<noteq> []" "resource \<noteq> []"
    and "Write json d w collections resource v = (w', None)"
  obtains w1 w2 b where
    "os_MkdirAll w (Write_dir d collections) = (w1, None)"
    "MarshalIndent json v [] [CHR 0x09] = Some b"
    "os_WriteFile w1 (tmpPath d collections resource) (b @ [CHR 0x0A]) = (w2, None)"
    "os_Rename w2 (tmpPath d collections resource) (fnlPath d collections resource) = (w', None)"
  using assms
  by (auto simp: Write_def split: prod.splits option.splits)

lemma Write_names: "Write json d w collections resource v = (w', None) \<Longrightarrow>
  collections \<noteq> [] \<and> resource \<noteq> []"
  by (auto simp: Write_def split: if_splits)



lemma map_insort_key: "map f (insort_key f x xs) = insort (f x) (map f xs)"
  by (induction xs) auto

lemma sort_map_key: "sort (map f xs) = map f (sort_key f xs)"
  by (induction xs) (simp_all add: sort_key_def map_insort_key)

lemma namei_Join_simple:
  "simple_name n \<Longrightarrow> namei w (Join p n) = namei w p @ [n]"
proof -
  assume s: "simple_name n"
  then have "n \<noteq> ''..''" by (simp add: simple_name_def)
  from namei_snoc[OF this, of w "rooted p" "comps p"] show ?thesis
    by (simp add: Join_simple[OF s])
qed

lemma ReadAll_loop_files:
  assumes d: "lookup (tree w) (namei w p) = Inr (Dir (map (\<lambda>(n, s). (n, File s)) fs))"
    and dist: "distinct (map fst fs)"
  shows "set xs \<subseteq> set fs \<Longrightarrow> \<forall>n \<in> fst ` set xs. simple_name n \<Longrightarrow>
         ReadAll_loop w p (map fst xs) records = Inr (records @ map snd xs)"
proof (induction xs arbitrary: records)
  case Nil
  then show ?case by simp
next
  case (Cons x xs)
  obtain n s where x: "x = (n, s)" by (cases x)
  with Cons.prems have mem: "(n, s) \<in> set fs" and sn: "simple_name n" by auto
  from dist mem have "map_of fs n = Some s" by (rule map_of_is_SomeI)
  then have "map_of (map (\<lambda>(n, s). (n, File s)) fs) n = Some (File s)"
    by (simp add: map_of_map)
  then have "lookup (tree w) (namei w p @ [n]) = Inr (File s)"
    using d by (simp add: lookup_append)
  then have "os_ReadFile w (Join p n) = Inr s"
    by (simp add: os_ReadFile_def namei_Join_simple[OF sn])
  moreover have "ReadAll_loop w p (map fst xs) (records @ [s]) = Inr ((records @ [s]) @ map snd xs)"
    using Cons.prems by (intro Cons.IH) auto
  ultimately show ?case using x by simp
qed

lemma ReadAll_listing:
  assumes c: "collections \<noteq> []"
    and d: "lookup (tree w) (namei w (Join (dir d) collections)) =
              Inr (Dir (map (\<lambda>(n, s). (n, File s)) fs))"
    and dist: "distinct (map fst fs)"
    and names: "\<forall>n \<in> fst ` set fs. simple_name n"
  shows "ReadAll d w collections = Inr (map snd (sort_key fst fs))"
proof -
  let ?p = "Join (dir d) collections"
  have st: "stat w ?p = Inr IsDir" using d by (simp add: stat_def os_Stat_def)
  have "map fst (map (\<lambda>(n, s). (n, File s)) fs) = map fst fs" by (induction fs) auto
  then have "sort (map fst (map (\<lambda>(n, s). (n, File s)) fs)) = map fst (sort_key fst fs)"
    using sort_map_key[of fst fs] by presburger
  then have rd: "os_ReadDir w ?p = Inr (map fst (sort_key fst fs))"
    using d by (simp add: os_ReadDir_def del: map_map)
  have "ReadAll_loop w ?p (map fst (sort_key fst fs)) [] = Inr ([] @ map snd (sort_key fst fs))"
    using names by (intro ReadAll_loop_files[OF d dist]) auto
  then show ?thesis using c st rd by (simp add: ReadAll_def)
qed

subsection \<open>Delete\<close>

lemma simple_name_hd: "simple_name c \<Longrightarrow> (case c @ s of [] \<Rightarrow> False | x # _ \<Rightarrow> x = CHR ''/'') = False"
  by (cases c) (auto simp: simple_name_def)

lemma Join_str_simple:
  assumes "simple_name c" "simple_name r"
  shows "Join_str c r = c @ ''/'' @ r"
proof -
  have sp: "split_slash (c @ ''/'' @ r) = [c, r]"
    using assms by (simp add: simple_name_def split_slash_sep split_slash_plain)
  have "Clean (c @ ''/'' @ r) = Path False [c, r]"
    unfolding Clean_def sp using assms simple_name_hd[OF assms(1), of "''/'' @ r"]
    by (simp add: clean_step_def simple_name_def)
  then show ?thesis using assms by (simp add: Join_str_def path_string_def simple_name_def)
qed

lemma Join_str_empty:
  assumes "simple_name c"
  shows "Join_str c [] = c"
proof -
  have sp: "split_slash (c @ ''/'' @ []) = [c, []]"
    using assms by (simp add: simple_name_def split_slash_sep)
  have "Clean (c @ ''/'' @ []) = Path False [c]"
    unfolding Clean_def sp using assms simple_name_hd[OF assms(1), of "''/'' @ []"]
    by (simp add: clean_step_def simple_name_def)
  then show ?thesis using assms by (simp add: Join_str_def path_string_def simple_name_def)
qed

lemma Delete_dir_simple:
  assumes "simple_name c" "simple_name r"
  shows "Delete_dir d c r = Path (rooted (dir d)) (comps (dir d) @ [c, r])"
proof -
  have sp: "split_slash (c @ ''/'' @ r) = [c, r]"
    using assms by (simp add: simple_name_def split_slash_sep split_slash_plain)
  show ?thesis
    unfolding Delete_dir_def Delete_path_def Join_str_simple[OF assms] Join_def sp
    using assms by (simp add: clean_step_def simple_name_def)
qed

lemma Delete_dir_empty:
  assumes "simple_name c"
  shows "Delete_dir d c [] = Write_dir d c"
  by (simp add: Delete_dir_def Delete_path_def Join_str_empty[OF assms] Write_dir_def)

lemma Delete_dir_root: "Delete_dir d [] [] = dir d"
  by (simp add: Delete_dir_def Delete_path_def Join_str_def Join_def clean_step_def)

lemma fnlPath_simple:
  assumes "simple_name c" "simple_name r"
  shows "fnlPath d c r = Path (rooted (dir d)) (comps (dir d) @ [c, r @ ''.json''])"
  using assms
  by (simp add: fnlPath_def Write_dir_def Join_simple simple_name_suffix)

lemma Delete_json_simple:
  assumes "simple_name c" "simple_name r"
  shows "path_suffix (Delete_dir d c r) ''.json'' = fnlPath d c r"
  using path_suffix_snoc[of "rooted (dir d)" "comps (dir d) @ [c]" r "''.json''"]
  by (simp add: Delete_dir_simple[OF assms] fnlPath_simple[OF assms])

lemma os_RemoveAll_effect:
  assumes "\<not> endsWithDot p" and "\<not> endsWithDotDot p" and "namei w p \<noteq> []"
    and "lookup (tree w) (namei w p) = Inr n"
  shows "os_RemoveAll w p =
    (w\<lparr>calls := calls w @ [SysRemoveAll p], tree := unlink_tree (tree w) (namei w p)\<rparr>, None)"
  using assms by (simp add: os_RemoveAll_def Let_def)

lemma sibling_stat:
  assumes "lookup t (P @ [a]) = Inr x"
  shows "lookup t (P @ [b]) = Inl ENOENT \<or> (\<exists>y. lookup t (P @ [b]) = Inr y)"
proof -
  from assms obtain n where n: "lookup t P = Inr n" "lookup n [a] = Inr x"
    by (auto simp: lookup_append split: sum.splits)
  then obtain es where "n = Dir es" by (cases n) auto
  then show ?thesis using n by (auto simp: lookup_append split: option.splits)
qed

lemma os_RemoveAll_peek:
  assumes "\<not> endsWithDot p" and "\<not> endsWithDotDot p" and "namei w p \<noteq> []"
    and "lookup (tree w) (namei w p) = Inr n"
  shows "\<exists>w'. os_RemoveAll w p = (w', None) \<and> cwd w' = cwd w \<and>
           (\<forall>q. peek (tree w') q =
                 (if prefix (namei w p) q then Inl ENOENT else peek (tree w) q))"
  using os_RemoveAll_effect[OF assms] unlink_tree_gone[OF assms(3,4)]
    unlink_tree_frame[of "namei w p" _ "tree w"]
  by simp

lemma os_Stat_cases:
  "os_Stat w p = Inr IsDir \<longleftrightarrow> (\<exists>es. lookup (tree w) (namei w p) = Inr (Dir es))"
  "os_Stat w p = Inr IsRegular \<longleftrightarrow> (\<exists>s. lookup (tree w) (namei w p) = Inr (File s))"
  "os_Stat w p = Inl e \<longleftrightarrow> lookup (tree w) (namei w p) = Inl e"
  by (auto simp: os_Stat_def split: sum.splits node.splits)

lemma Delete_resource:
  assumes sc: "simple_name c" and sr: "simple_name r"
    and res: "os_ReadFile w (fnlPath d c r) = Inr s"
    and bare: "os_Stat w (Delete_dir d c r) \<noteq> Inr IsDir"
  shows "\<exists>w'. Delete d w c r = (w', None) \<and> cwd w' = cwd w \<and>
           (\<forall>q. peek (tree w') q =
                 (if prefix (namei w (fnlPath d c r)) q then Inl ENOENT else peek (tree w) q))"
proof -
  let ?P = "namei w (Path (rooted (dir d)) (comps (dir d) @ [c]))"
  have r1: "r \<noteq> ''..''" and r2: "r @ ''.json'' \<noteq> ''..''" and r3: "r @ ''.json'' \<noteq> ''.''"
    using sr simple_name_suffix[OF sr] by (auto simp: simple_name_def)
  have nb: "namei w (Delete_dir d c r) = ?P @ [r]"
    using namei_snoc[OF r1, of w "rooted (dir d)" "comps (dir d) @ [c]"]
    by (simp add: Delete_dir_simple[OF sc sr])
  have nf: "namei w (fnlPath d c r) = ?P @ [r @ ''.json'']"
    using namei_snoc[OF r2, of w "rooted (dir d)" "comps (dir d) @ [c]"]
    by (simp add: fnlPath_simple[OF sc sr])
  from res have lf: "lookup (tree w) (namei w (fnlPath d c r)) = Inr (File s)"
    by (auto simp: os_ReadFile_def split: sum.splits node.splits)
  then have reg: "os_Stat w (fnlPath d c r) = Inr IsRegular"
    by (simp add: os_Stat_def)
  have "lookup (tree w) (?P @ [r]) = Inl ENOENT \<or> (\<exists>y. lookup (tree w) (?P @ [r]) = Inr y)"
    using lf unfolding nf by (rule sibling_stat)
  then have "os_Stat w (Delete_dir d c r) = Inl ENOENT \<or> os_Stat w (Delete_dir d c r) = Inr IsRegular"
    using bare unfolding os_Stat_def nb by (auto split: node.splits)
  then have st: "stat w (Delete_dir d c r) = Inr IsRegular"
    using reg by (auto simp: stat_def Delete_json_simple[OF sc sr])
  have ne: "\<not> endsWithDot (fnlPath d c r)"
    using r3 by (simp add: fnlPath_simple[OF sc sr] endsWithDot_def)
  have nd: "\<not> endsWithDotDot (fnlPath d c r)"
    using r2 by (simp add: fnlPath_simple[OF sc sr] endsWithDotDot_def)
  have nn: "namei w (fnlPath d c r) \<noteq> []" unfolding nf by simp
  from os_RemoveAll_peek[OF ne nd nn lf] show ?thesis
    using st by (auto simp: Delete_def Delete_json_simple[OF sc sr])
qed

lemma Delete_collection:
  assumes sc: "simple_name c"
    and col: "os_Stat w (Write_dir d c) = Inr IsDir"
  shows "\<exists>w'. Delete d w c [] = (w', None) \<and> cwd w' = cwd w \<and>
           (\<forall>q. peek (tree w') q =
                 (if prefix (namei w (Write_dir d c)) q then Inl ENOENT else peek (tree w) q))"
proof -
  have c1: "c \<noteq> ''..''" and c2: "c \<noteq> ''.''" using sc by (auto simp: simple_name_def)
  have wd: "Write_dir d c = Path (rooted (dir d)) (comps (dir d) @ [c])"
    by (simp add: Write_dir_def Join_simple[OF sc])
  have nn: "namei w (Write_dir d c) \<noteq> []"
    using namei_snoc[OF c1, of w "rooted (dir d)" "comps (dir d)"] unfolding wd by simp
  have ne: "\<not> endsWithDot (Write_dir d c)" using c2 by (simp add: wd endsWithDot_def)
  have nd: "\<not> endsWithDotDot (Write_dir d c)" using c1 by (simp add: wd endsWithDotDot_def)
  from col obtain es where l: "lookup (tree w) (namei w (Write_dir d c)) = Inr (Dir es)"
    by (auto simp: os_Stat_cases)
  have st: "stat w (Write_dir d c) = Inr IsDir" using col by (simp add: stat_def)
  from os_RemoveAll_peek[OF ne nd nn l] show ?thesis
    using st by (auto simp: Delete_def Delete_dir_empty[OF sc])
qed
text \<open>
  For the root \<open>..\<close> the removal empties the directory and fails on the directory
  itself, which stays.
\<close>

lemma New_above: "New store_above ''..'' = (above, store_above, None)"
  by code_simp

lemma Delete_root_dotdot:
  "dir above = Path False [''..''] \<and>
   os_Stat store_above (dir above) = Inr IsDir \<and>
   snd (Delete above store_above [] []) = Some (OsError ENOTEMPTY) \<and>
   tree (fst (Delete above store_above [] [])) = Dir [(''home'', Dir [])]"
  by code_simp

subsection \<open>The steps of a successful \<open>Write\<close>\<close>







section \<open>The claims\<close>

text \<open>
  Claim C1 says that \<open>write(collection, resource, value)\<close> followed by
  \<open>read(collection, resource, out)\<close> succeeds and gives back the value written. \<open>Read\<close>
  leaves the resource out of the path it reads: it looks for the collection and then opens
  \<open><root>/<collection>.json\<close>. In the empty store \<open>db\<close>, writing \<open>true\<close> as
  \<open>users/john\<close> succeeds and creates \<open>db/users/john.json\<close>, which decodes to the value
  written, and reading \<open>users/john\<close> back fails: there is no \<open>db/users.json\<close>.
\<close>

theorem C1_write_then_read_fails:
  "snd (Write sample_json db home ''users'' ''john'' (Flag True)) = None \<and>
   tree (fst (Write sample_json db home ''users'' ''john'' (Flag True))) = tree store_john \<and>
   Unmarshal sample_json (''true'' @ [CHR 0x0A]) Chan = Some (Flag True) \<and>
   Read sample_json db (fst (Write sample_json db home ''users'' ''john'' (Flag True)))
     ''users'' ''john'' Chan = Inl (OsError ENOENT)"
  by code_simp

text \<open>
  Claim C2 says that \<open>read\<close> looks for the path made of the root, the collection and the
  resource, bare and then with \<open>.json\<close>, fails with not-found when neither exists, and
  otherwise reads that resource's file. \<open>Read\<close> uses the root and the collection only.
  Where \<open>db/users.json\<close> holds \<open>false\<close> and \<open>db/users/john.json\<close> holds \<open>true\<close>,
  reading \<open>users/john\<close> gives \<open>false\<close>; reading \<open>users/nobody\<close>, which exists in
  neither form, gives \<open>false\<close> as well; and where only \<open>db/users/john.json\<close> exists,
  reading \<open>users/john\<close> fails.
\<close>

theorem C2_read_leaves_resource_out:
  "os_ReadFile store_flat (fnlPath db ''users'' ''john'') = Inr (''true'' @ [CHR 0x0A]) \<and>
   Read sample_json db store_flat ''users'' ''john'' Chan = Inr (Flag False) \<and>
   os_Stat store_flat (Join (Join (dir db) ''users'') ''nobody'') = Inl ENOENT \<and>
   os_Stat store_flat (path_suffix (Join (Join (dir db) ''users'') ''nobody'') ''.json'')
     = Inl ENOENT \<and>
   Read sample_json db store_flat ''users'' ''nobody'' Chan = Inr (Flag False) \<and>
   os_ReadFile store_john (fnlPath db ''users'' ''john'') = Inr (''true'' @ [CHR 0x0A]) \<and>
   Read sample_json db store_john ''users'' ''john'' Chan = Inl (OsError ENOENT)"
  by code_simp

text \<open>
  Claim C3 says that \<open>write\<close>, \<open>read\<close> and \<open>delete\<close> with an empty collection or
  resource name fail with a validation error and change nothing on disk. \<open>Delete\<close> checks
  neither name: with an empty resource name it removes the collection and returns no
  error.
\<close>

theorem C3_delete_empty_resource_removes:
  "snd (Delete db store_john ''users'' []) = None \<and>
   tree (fst (Delete db store_john ''users'' [])) = tree home \<and>
   tree home \<noteq> tree store_john"
  by code_simp

text \<open>
  Claim C3 as amended: \<open>write\<close> and \<open>read\<close> with an empty collection or resource name
  fail with a validation error, and the world after \<open>write\<close> is the world before it
  (\<open>read\<close> returns no world: it cannot change one).
\<close>

theorem C3_empty_name_write_read:
  assumes "collections = [] \<or> resource = []"
  shows "(\<exists>e. Write json d w collections resource v = (w, Some e) \<and> is_ValidationError e) \<and>
         (\<exists>e. Read json d w collections resource out = Inl e \<and> is_ValidationError e)"
  using assms by (auto simp: Write_def Read_def)

theorem C3_empty_name_write_read_witness:
  "(''users'' = [] \<or> ([] :: string) = []) \<and>
   (\<exists>e. Write sample_json db store_john ''users'' [] (Flag True) = (store_john, Some e) \<and>
        is_ValidationError e) \<and>
   (\<exists>e. Read sample_json db store_john ''users'' [] Chan = Inl e \<and> is_ValidationError e)"
  using C3_empty_name_write_read [of "''users''" "[]" sample_json db store_john "Flag True" Chan]
  by simp

text \<open>
  Claim C4 says that \<open>delete(collection, resource)\<close> of an existing resource removes that
  resource's file only, and that \<open>delete(collection, "")\<close> removes the collection. Where
  the collection also holds a directory named as the resource, \<open>Delete\<close> finds the
  directory first and removes it with its content; the resource's file stays.
\<close>

theorem C4_delete_removes_directory_instead:
  "os_ReadFile store_both (fnlPath db ''users'' ''john'') = Inr (''true'' @ [CHR 0x0A]) \<and>
   os_ReadFile store_both (Path False [''db'', ''users'', ''john'', ''x.json''])
     = Inr (''false'' @ [CHR 0x0A]) \<and>
   snd (Delete db store_both ''users'' ''john'') = None \<and>
   os_ReadFile (fst (Delete db store_both ''users'' ''john'')) (fnlPath db ''users'' ''john'')
     = Inr (''true'' @ [CHR 0x0A]) \<and>
   os_ReadFile (fst (Delete db store_both ''users'' ''john''))
     (Path False [''db'', ''users'', ''john'', ''x.json'']) = Inl ENOENT"
  by code_simp

text \<open>
  Claim C4 as amended, for names that are one path component. When the resource's file
  \<open><root>/<collection>/<resource>.json\<close> exists and \<open><root>/<collection>/<resource>\<close> is
  not a directory, \<open>Delete\<close> returns no error, the file is gone, and every path that is
  not that file (or below it) shows what it showed before. When the collection is a
  directory, \<open>Delete\<close> with the empty resource name returns no error, the directory and
  all below it are gone, and every other path shows what it showed before.
\<close>

theorem C4_delete_resource_or_collection:
  assumes "simple_name collections"
  shows "(simple_name resource \<and> os_ReadFile w (fnlPath d collections resource) = Inr s \<and>
          os_Stat w (Delete_dir d collections resource) \<noteq> Inr IsDir \<longrightarrow>
          (\<exists>w'. Delete d w collections resource = (w', None) \<and> cwd w' = cwd w \<and>
             (\<forall>q. peek (tree w') q =
                (if prefix (namei w (fnlPath d collections resource)) q then Inl ENOENT
                 else peek (tree w) q)))) \<and>
         (os_Stat w (Write_dir d collections) = Inr IsDir \<longrightarrow>
          (\<exists>w'. Delete d w collections [] = (w', None) \<and> cwd w' = cwd w \<and>
             (\<forall>q. peek (tree w') q =
                (if prefix (namei w (Write_dir d collections)) q then Inl ENOENT
                 else peek (tree w) q))))"
  using Delete_resource[OF assms, of resource w d s] Delete_collection[OF assms, of w d]
  by blast

theorem C4_delete_resource_or_collection_witness:
  "simple_name ''users'' \<and> simple_name ''john'' \<and>
   os_ReadFile store_flat (fnlPath db ''users'' ''john'') = Inr (''true'' @ [CHR 0x0A]) \<and>
   os_Stat store_flat (Delete_dir db ''users'' ''john'') \<noteq> Inr IsDir \<and>
   os_Stat store_flat (Write_dir db ''users'') = Inr IsDir \<and>
   snd (Delete db store_flat ''users'' ''john'') = None \<and>
   peek (tree (fst (Delete db store_flat ''users'' ''john'')))
     [''home'', ''db'', ''users'', ''john.json''] = Inl ENOENT \<and>
   peek (tree (fst (Delete db store_flat ''users'' ''john'')))
     [''home'', ''db'', ''users'', ''amy.json''] = Inr (Some (''false'' @ [CHR 0x0A])) \<and>
   snd (Delete db store_flat ''users'' []) = None \<and>
   peek (tree (fst (Delete db store_flat ''users'' [])))
     [''home'', ''db'', ''users'', ''amy.json''] = Inl ENOENT \<and>
   peek (tree (fst (Delete db store_flat ''users'' [])))
     [''home'', ''db'', ''users.json''] = Inr (Some (''false'' @ [CHR 0x0A]))"
proof -
  have h1: "simple_name ''users''" and h2: "simple_name ''john''"
    by (simp_all add: simple_name_def)
  have h3: "os_ReadFile store_flat (fnlPath db ''users'' ''john'') = Inr (''true'' @ [CHR 0x0A])"
    by code_simp
  have h4: "os_Stat store_flat (Delete_dir db ''users'' ''john'') \<noteq> Inr IsDir"
    by code_simp
  have h5: "os_Stat store_flat (Write_dir db ''users'') = Inr IsDir"
    by code_simp
  have n1: "namei store_flat (fnlPath db ''users'' ''john'')
              = [''home'', ''db'', ''users'', ''john.json'']"
    by code_simp
  have n2: "namei store_flat (Write_dir db ''users'') = [''home'', ''db'', ''users'']"
    by code_simp
  have p1: "peek (tree store_flat) [''home'', ''db'', ''users'', ''amy.json'']
              = Inr (Some (''false'' @ [CHR 0x0A]))"
    by code_simp
  have p2: "peek (tree store_flat) [''home'', ''db'', ''users.json'']
              = Inr (Some (''false'' @ [CHR 0x0A]))"
    by code_simp
  note inst = C4_delete_resource_or_collection
    [OF h1, of "''john''" store_flat db "''true'' @ [CHR 0x0A]"]
  from inst h2 h3 h4 obtain w1 where
    d1: "Delete db store_flat ''users'' ''john'' = (w1, None)" and
    q1: "\<And>q. peek (tree w1) q =
          (if prefix (namei store_flat (fnlPath db ''users'' ''john'')) q then Inl ENOENT
           else peek (tree store_flat) q)"
    by blast
  from inst h5 obtain w2 where
    d2: "Delete db store_flat ''users'' [] = (w2, None)" and
    q2: "\<And>q. peek (tree w2) q =
          (if prefix (namei store_flat (Write_dir db ''users'')) q then Inl ENOENT
           else peek (tree store_flat) q)"
    by blast
  show ?thesis
    using h1 h2 h3 h4 h5 by (simp add: d1 d2 q1 q2 n1 n2 p1 p2)
qed



text \<open>
  Claim C6: after a write that returned no error, the file at the final path holds the
  value as \<open>json.MarshalIndent\<close> encodes it with the empty prefix and one tab as
  indentation, followed by one newline; for names that are one path component the final
  path is \<open><root>/<collection>/<resource>.json\<close>.
\<close>

theorem C6_written_file_content:
  assumes "Write json d w collections resource v = (w', None)"
  shows "(\<exists>b. MarshalIndent json v [] [CHR 0x09] = Some b \<and>
              os_ReadFile w' (fnlPath d collections resource) = Inr (b @ [CHR 0x0A])) \<and>
         (simple_name collections \<and> simple_name resource \<longrightarrow>
            fnlPath d collections resource =
              Path (rooted (dir d)) (comps (dir d) @ [collections, resource @ ''.json'']))"
proof -
  from Write_names[OF assms] have ne: "collections \<noteq> []" "resource \<noteq> []" by auto
  from Write_steps[OF ne assms] obtain w1 w2 b where
    s1: "os_MkdirAll w (Write_dir d collections) = (w1, None)" and
    s2: "MarshalIndent json v [] [CHR 0x09] = Some b" and
    s3: "os_WriteFile w1 (tmpPath d collections resource) (b @ [CHR 0x0A]) = (w2, None)" and
    s4: "os_Rename w2 (tmpPath d collections resource) (fnlPath d collections resource)
           = (w', None)"
    by blast
  have c2: "cwd w2 = cwd w1" using os_WriteFile_effect(1)[OF s3] .
  have "lookup (tree w2) (namei w1 (tmpPath d collections resource))
          = Inr (File (b @ [CHR 0x0A]))"
    using os_WriteFile_effect(3)[OF s3] .
  then have f2: "lookup (tree w2) (namei w2 (tmpPath d collections resource))
                   = Inr (File (b @ [CHR 0x0A]))"
    using namei_cong[OF c2] by simp
  have c3: "cwd w' = cwd w2" using os_Rename_effect(1)[OF s4 f2] .
  have "lookup (tree w') (namei w2 (fnlPath d collections resource))
          = Inr (File (b @ [CHR 0x0A]))"
    using os_Rename_effect(3)[OF s4 f2] .
  then have "lookup (tree w') (namei w' (fnlPath d collections resource))
               = Inr (File (b @ [CHR 0x0A]))"
    using namei_cong[OF c3] by simp
  then have "os_ReadFile w' (fnlPath d collections resource) = Inr (b @ [CHR 0x0A])"
    by (simp add: os_ReadFile_def)
  with s2 show ?thesis using fnlPath_simple by blast
qed

theorem C6_written_file_content_witness:
  "snd (Write sample_json db home ''users'' ''john'' (Flag False)) = None \<and>
   simple_name ''users'' \<and> simple_name ''john'' \<and>
   os_ReadFile (fst (Write sample_json db home ''users'' ''john'' (Flag False)))
     (Path False [''db'', ''users'', ''john.json'']) = Inr (''false'' @ [CHR 0x0A])"
proof -
  have e: "snd (Write sample_json db home ''users'' ''john'' (Flag False)) = None"
    by code_simp
  then have h: "Write sample_json db home ''users'' ''john'' (Flag False) =
      (fst (Write sample_json db home ''users'' ''john'' (Flag False)), None)"
    by (metis prod.collapse)
  have s: "simple_name ''users''" "simple_name ''john''"
    by (simp_all add: simple_name_def)
  have m: "MarshalIndent sample_json (Flag False) [] [CHR 0x09] = Some ''false''"
    by code_simp
  have r: "rooted (dir db) = False" "comps (dir db) = [''db'']"
    by code_simp+
  from C6_written_file_content[OF h] obtain b where
    b: "MarshalIndent sample_json (Flag False) [] [CHR 0x09] = Some b" and
    rf: "os_ReadFile (fst (Write sample_json db home ''users'' ''john'' (Flag False)))
           (fnlPath db ''users'' ''john'') = Inr (b @ [CHR 0x0A])" and
    fp: "simple_name ''users'' \<and> simple_name ''john'' \<longrightarrow>
           fnlPath db ''users'' ''john'' =
             Path (rooted (dir db)) (comps (dir db) @ [''users'', ''john'' @ ''.json''])"
    by blast
  from b m have b': "b = ''false''" by simp
  from fp s r have fp': "fnlPath db ''users'' ''john'' = Path False [''db'', ''users'', ''john.json'']"
    by simp
  show ?thesis using e s rf unfolding fp' b' by simp
qed

text \<open>
  Claim C7: when nothing exists at the target of \<open>Delete\<close>, neither at the bare path nor
  at the path with \<open>.json\<close>, \<open>Delete\<close> returns its not-found error, and the world after
  the call is the world before it.
\<close>

theorem C7_delete_missing_target:
  assumes "os_Stat w (Delete_dir d collections resource) = Inl e1"
    and "os_Stat w (path_suffix (Delete_dir d collections resource) ''.json'') = Inl e2"
  shows "Delete d w collections resource = (w, Some (UnableToFind (Delete_path collections resource)))
         \<and> is_NotFoundError (UnableToFind (Delete_path collections resource))"
  using assms by (simp add: Delete_def stat_def)

theorem C7_delete_missing_target_witness:
  "os_Stat store_john (Delete_dir db ''users'' ''amy'') = Inl ENOENT \<and>
   os_Stat store_john (path_suffix (Delete_dir db ''users'' ''amy'') ''.json'') = Inl ENOENT \<and>
   Delete db store_john ''users'' ''amy'' = (store_john, Some (UnableToFind ''users/amy''))"
proof -
  have h1: "os_Stat store_john (Delete_dir db ''users'' ''amy'') = Inl ENOENT"
    by code_simp
  have h2: "os_Stat store_john (path_suffix (Delete_dir db ''users'' ''amy'') ''.json'')
              = Inl ENOENT"
    by code_simp
  have p: "Delete_path ''users'' ''amy'' = ''users/amy''"
    by code_simp
  from C7_delete_missing_target[OF h1 h2] show ?thesis using h1 h2 by (simp add: p)
qed

text \<open>
  Claim C8 says that \<open>readAll\<close> fails with a validation error for the empty collection
  name, fails with not-found when the collection directory does not exist, and otherwise
  returns one blob per file of the directory. There is no directory \<open>db/items\<close>, but the
  file \<open>db/items.json\<close> satisfies the existence check of \<open>ReadAll\<close>, the failed
  listing is ignored, and \<open>ReadAll\<close> returns the empty sequence and no error.
\<close>

theorem C8_missing_directory_not_reported:
  "os_Stat store_flat (Join (dir db) ''items'') = Inl ENOENT \<and>
   ReadAll db store_flat ''items'' = Inr []"
  by code_simp

text \<open>
  Claim C8 as amended: \<open>ReadAll\<close> fails with a validation error for the empty collection
  name; it fails with not-found when nothing exists at the collection path nor at that
  path with \<open>.json\<close>; and for a collection directory whose entries are \<open>k\<close> regular
  files it returns their \<open>k\<close> contents, in the order of the file names.
\<close>

theorem C8_readAll:
  "(ReadAll d w [] = Inl MissingCollection \<and> is_ValidationError MissingCollection) \<and>
   (collections \<noteq> [] \<and> os_Stat w (Join (dir d) collections) = Inl ENOENT \<and>
    os_Stat w (path_suffix (Join (dir d) collections) ''.json'') = Inl ENOENT
      \<longrightarrow> ReadAll d w collections = Inl (OsError ENOENT) \<and> is_NotFoundError (OsError ENOENT)) \<and>
   (collections \<noteq> [] \<and>
    lookup (tree w) (namei w (Join (dir d) collections)) =
      Inr (Dir (map (\<lambda>(n, s). (n, File s)) fs)) \<and>
    distinct (map fst fs) \<and> (\<forall>n \<in> fst ` set fs. simple_name n)
      \<longrightarrow> ReadAll d w collections = Inr (map snd (sort_key fst fs)) \<and>
          length (map snd (sort_key fst fs)) = length fs)"
  using ReadAll_listing[of collections w d fs]
  by (auto simp: ReadAll_def stat_def)

theorem C8_readAll_witness:
  "''users'' \<noteq> [] \<and>
   os_Stat home (Join (dir db) ''users'') = Inl ENOENT \<and>
   os_Stat home (path_suffix (Join (dir db) ''users'') ''.json'') = Inl ENOENT \<and>
   ReadAll db home ''users'' = Inl (OsError ENOENT) \<and>
   lookup (tree store_flat) (namei store_flat (Join (dir db) ''users'')) =
     Inr (Dir (map (\<lambda>(n, s). (n, File s))
       [(''john.json'', ''true'' @ [CHR 0x0A]), (''amy.json'', ''false'' @ [CHR 0x0A])])) \<and>
   distinct (map fst [(''john.json'', ''true'' @ [CHR 0x0A]), (''amy.json'', ''false'' @ [CHR 0x0A])]) \<and>
   simple_name ''john.json'' \<and> simple_name ''amy.json'' \<and>
   ReadAll db store_flat ''users'' = Inr [''false'' @ [CHR 0x0A], ''true'' @ [CHR 0x0A]]"
proof -
  let ?fs = "[(''john.json'', ''true'' @ [CHR 0x0A]), (''amy.json'', ''false'' @ [CHR 0x0A])]"
  have a1: "os_Stat home (Join (dir db) ''users'') = Inl ENOENT"
    by code_simp
  have a2: "os_Stat home (path_suffix (Join (dir db) ''users'') ''.json'') = Inl ENOENT"
    by code_simp
  have b1: "lookup (tree store_flat) (namei store_flat (Join (dir db) ''users'')) =
     Inr (Dir (map (\<lambda>(n, s). (n, File s)) ?fs))"
    by code_simp
  have b2: "distinct (map fst ?fs)" by simp
  have b3: "\<forall>n \<in> fst ` set ?fs. simple_name n" by (simp add: simple_name_def)
  have b4: "map snd (sort_key fst ?fs) = [''false'' @ [CHR 0x0A], ''true'' @ [CHR 0x0A]]"
    by code_simp
  have ne: "''users'' \<noteq> []" by simp
  from C8_readAll[of db home "''users''" "[]"] a1 a2
  have r1: "ReadAll db home ''users'' = Inl (OsError ENOENT)" by simp
  from C8_readAll[of db store_flat "''users''" ?fs] ne b1 b2 b3
  have r2: "ReadAll db store_flat ''users'' = Inr (map snd (sort_key fst ?fs))" by blast
  show ?thesis using a1 a2 r1 b1 b2 b3 r2 unfolding b4 by simp
qed

text \<open>
  Claim C9 says that \<open>delete("", "")\<close> targets the root directory of the store and, when
  that directory exists, removes it with all its content and returns no error. The driver
  made for \<open>./\<close> has the root \<open>.\<close>, which \<open>os.RemoveAll\<close> refuses: \<open>Delete\<close> returns
  that error and nothing is removed.
\<close>

theorem C9_root_dot_not_removed:
  "dir here = Path False [] \<and>
   os_Stat store_here (dir here) = Inr IsDir \<and>
   Delete_dir here [] [] = dir here \<and>
   snd (Delete here store_here [] []) = Some (OsError EINVAL) \<and>
   tree (fst (Delete here store_here [] [])) = tree store_here"
  by code_simp

text \<open>
  Claim C9 as amended: with both names empty the target of \<open>Delete\<close> is the root
  directory of the store; when that directory exists, its path ends neither in \<open>.\<close> nor
  in \<open>..\<close> and it is not the root of the file system, \<open>Delete\<close> returns no error, the
  root directory and all below it are gone, and every other path shows what it showed
  before.
\<close>

theorem C9_delete_root:
  assumes "os_Stat w (dir d) = Inr IsDir"
    and "\<not> endsWithDot (dir d)" and "\<not> endsWithDotDot (dir d)"
    and "namei w (dir d) \<noteq> []"
  shows "Delete_dir d [] [] = dir d \<and>
         (\<exists>w'. Delete d w [] [] = (w', None) \<and> cwd w' = cwd w \<and>
            (\<forall>q. peek (tree w') q =
               (if prefix (namei w (dir d)) q then Inl ENOENT else peek (tree w) q)))"
proof -
  from assms(1) obtain es where l: "lookup (tree w) (namei w (dir d)) = Inr (Dir es)"
    by (auto simp: os_Stat_cases)
  have st: "stat w (dir d) = Inr IsDir" using assms(1) by (simp add: stat_def)
  from os_RemoveAll_peek[OF assms(2,3,4) l] show ?thesis
    using st by (auto simp: Delete_def Delete_dir_root)
qed

theorem C9_delete_root_witness:
  "os_Stat store_flat (dir db) = Inr IsDir \<and> \<not> endsWithDot (dir db) \<and>
   \<not> endsWithDotDot (dir db) \<and>
   namei store_flat (dir db) = [''home'', ''db''] \<and>
   snd (Delete db store_flat [] []) = None \<and>
   peek (tree (fst (Delete db store_flat [] []))) [''home'', ''db''] = Inl ENOENT \<and>
   peek (tree (fst (Delete db store_flat [] []))) [''home'', ''db'', ''users'', ''amy.json'']
     = Inl ENOENT \<and>
   peek (tree (fst (Delete db store_flat [] []))) [''home''] = Inr None"
proof -
  have h1: "os_Stat store_flat (dir db) = Inr IsDir" by code_simp
  have h2: "\<not> endsWithDot (dir db)" by code_simp
  have h2': "\<not> endsWithDotDot (dir db)" by code_simp
  have n: "namei store_flat (dir db) = [''home'', ''db'']" by code_simp
  then have h3: "namei store_flat (dir db) \<noteq> []" by simp
  have p: "peek (tree store_flat) [''home''] = Inr None" by code_simp
  from C9_delete_root[OF h1 h2 h2' h3] obtain w' where
    d: "Delete db store_flat [] [] = (w', None)" and
    q: "\<And>q. peek (tree w') q =
          (if prefix (namei store_flat (dir db)) q then Inl ENOENT else peek (tree store_flat) q)"
    by blast
  show ?thesis using h1 h2 h2' n by (simp add: d q p)
qed

text \<open>
  Claim C10: \<open>ReadAll\<close> ignores an error of listing the collection directory: whenever
  its existence check passes and the listing fails, it returns the empty sequence and no
  error. In particular it does so when nothing exists at the collection path and a file
  exists at that path with \<open>.json\<close>.
\<close>

theorem C10_readAll_ignores_listing_error:
  "(collections \<noteq> [] \<and> stat w (Join (dir d) collections) = Inr fi \<and>
    os_ReadDir w (Join (dir d) collections) = Inl e
      \<longrightarrow> ReadAll d w collections = Inr []) \<and>
   (collections \<noteq> [] \<and> os_Stat w (Join (dir d) collections) = Inl ENOENT \<and>
    os_Stat w (path_suffix (Join (dir d) collections) ''.json'') = Inr fi
      \<longrightarrow> ReadAll d w collections = Inr [])"
  by (auto simp: ReadAll_def stat_def os_ReadDir_def os_Stat_def split: sum.splits node.splits)

theorem C10_readAll_ignores_listing_error_witness:
  "''orders'' \<noteq> [] \<and>
   stat store_flat (Join (dir db) ''orders'') = Inr IsRegular \<and>
   os_ReadDir store_flat (Join (dir db) ''orders'') = Inl ENOENT \<and>
   os_Stat store_flat (Join (dir db) ''orders'') = Inl ENOENT \<and>
   os_Stat store_flat (path_suffix (Join (dir db) ''orders'') ''.json'') = Inr IsRegular \<and>
   ReadAll db store_flat ''orders'' = Inr []"
proof -
  have h1: "stat store_flat (Join (dir db) ''orders'') = Inr IsRegular" by code_simp
  have h2: "os_ReadDir store_flat (Join (dir db) ''orders'') = Inl ENOENT" by code_simp
  have h3: "os_Stat store_flat (Join (dir db) ''orders'') = Inl ENOENT" by code_simp
  have h4: "os_Stat store_flat (path_suffix (Join (dir db) ''orders'') ''.json'') = Inr IsRegular"
    by code_simp
  from C10_readAll_ignores_listing_error[of "''orders''" store_flat db IsRegular ENOENT]
  show ?thesis using h1 h2 h3 h4 by simp
qed

end
